theory Spec2Isabelle
  imports Main
begin

section \<open>UniEats backend: identity reconciliation and session-backed authorization\<close>

text \<open>
  The development follows \<^verbatim>\<open>server.js\<close> (the version with the cross-origin
  fix) and \<^verbatim>\<open>db.js\<close>. The verify callback of the OIDC strategy, the
  \<^verbatim>\<open>serializeUser\<close>/\<^verbatim>\<open>deserializeUser\<close> pair and the route handlers are
  transcribed from the source. Three collaborators are not part of the repository and
  are modelled by their contract, each in a subsection of its own:
  \<^item> the PostgreSQL \<^verbatim>\<open>users\<close> table behind \<^verbatim>\<open>db.query\<close> (the four SQL
    statements the source issues);
  \<^item> the express-session store (a session is found by its id until it expires or is
    destroyed);
  \<^item> passport's dispatch on the outcome of a callback: \<^verbatim>\<open>done(err)\<close> is an error
    handed to \<^verbatim>\<open>next(err)\<close>, \<^verbatim>\<open>done(null, false)\<close> is an authentication
    failure, \<^verbatim>\<open>done(null, user)\<close> is a success.
\<close>

subsection \<open>JavaScript values of the provider profile\<close>

text \<open>
  A profile field is a string or missing (\<open>None\<close> stands for \<^verbatim>\<open>undefined\<close> and
  \<^verbatim>\<open>null\<close>). A value is truthy when it is a non-empty string; \<^verbatim>\<open>a || b\<close> is
  \<^verbatim>\<open>a\<close> when \<^verbatim>\<open>a\<close> is truthy and \<^verbatim>\<open>b\<close> otherwise.
\<close>

type_synonym jsstr = "string option"

definition truthy :: "jsstr \<Rightarrow> bool" where
  "truthy v = (case v of None \<Rightarrow> False | Some s \<Rightarrow> s \<noteq> [])"

definition js_or :: "jsstr \<Rightarrow> jsstr \<Rightarrow> jsstr" where
  "js_or a b = (if truthy a then a else b)"

record json_claims =
  json_email :: jsstr

record email_entry =
  entry_value :: jsstr

record profile =
  oid :: jsstr
  upn :: jsstr
  json :: "json_claims option"
  emails :: "email_entry list option"
  displayName :: jsstr

text \<open>\<^verbatim>\<open>profile._json?.email\<close>\<close>

definition json_email_of :: "profile \<Rightarrow> jsstr" where
  "json_email_of p = (case json p of None \<Rightarrow> None | Some j \<Rightarrow> json_email j)"

text \<open>\<^verbatim>\<open>profile.emails?.[0]?.value\<close>\<close>

definition first_email_of :: "profile \<Rightarrow> jsstr" where
  "first_email_of p =
     (case emails p of
        None \<Rightarrow> None
      | Some [] \<Rightarrow> None
      | Some (e # _) \<Rightarrow> entry_value e)"

text \<open>\<^verbatim>\<open>const email = profile.upn || profile._json?.email || profile.emails?.[0]?.value;\<close>\<close>

definition extract_email :: "profile \<Rightarrow> jsstr" where
  "extract_email p = js_or (js_or (upn p) (json_email_of p)) (first_email_of p)"

text \<open>\<^verbatim>\<open>const name = profile.displayName || 'UniEats User';\<close>\<close>

definition extract_name :: "profile \<Rightarrow> jsstr" where
  "extract_name p = js_or (displayName p) (Some ''UniEats User'')"

subsection \<open>The users table behind \<^verbatim>\<open>db.query\<close>\<close>

text \<open>
  Modelled from the spec: the schema of the \<^verbatim>\<open>users\<close> table is not among the
  sources. A row has the columns of the spec's LocalUser (\<open>id\<close>, \<open>azure_oid\<close>,
  \<open>email\<close>, \<open>name\<close>, \<open>role\<close>, \<open>created_at\<close>, \<open>updated_at\<close>); the column
  \<open>id\<close> is written \<open>id_col\<close>. Whether the table carries the uniqueness constraint
  on \<open>azure_oid\<close> that the spec asks for is the parameter \<open>unique_oid\<close>, and the
  column default of \<open>role\<close> is the parameter \<open>default_role\<close>.
\<close>

record user_row =
  id_col :: nat
  azure_oid :: string
  email :: string
  name :: string
  role :: string
  created_at :: nat
  updated_at :: nat

text \<open>The four statements the source sends, with their parameters in the source's order.\<close>

datatype sql =
    SelectByOid string
  | InsertUser string string string
  | UpdateUser string string nat
  | SelectById nat

datatype db_error = Unreachable | UniqueViolation

text \<open>
  The connection and the table. \<open>rows\<close> is the table in scan order, \<open>next_id\<close> the
  sequence behind \<open>id\<close>, \<open>clock\<close> the value of \<^verbatim>\<open>NOW()\<close>. \<open>faults\<close> says,
  query by query, whether the store can be reached (\<open>True\<close>: this query raises); an
  exhausted list means reachable. \<open>issued\<close> records every statement sent, in order.
\<close>

record db =
  rows :: "user_row list"
  next_id :: nat
  clock :: nat
  unique_oid :: bool
  default_role :: string
  faults :: "bool list"
  issued :: "sql list"

definition touch_row :: "string \<Rightarrow> string \<Rightarrow> nat \<Rightarrow> nat \<Rightarrow> user_row \<Rightarrow> user_row" where
  "touch_row n e i t r =
     (if id_col r = i then r\<lparr>email := e, name := n, updated_at := t\<rparr> else r)"

text \<open>The row an \<^verbatim>\<open>INSERT\<close> of \<open>azure_oid\<close>, \<open>email\<close> and \<open>name\<close> creates: the other
  columns take their defaults.\<close>

definition new_row :: "string \<Rightarrow> string \<Rightarrow> string \<Rightarrow> db \<Rightarrow> user_row" where
  "new_row a e n d =
     \<lparr>id_col = next_id d, azure_oid = a, email = e, name = n,
      role = default_role d, created_at = clock d, updated_at = clock d\<rparr>"

text \<open>
  What a statement does on a reachable store; the result is \<^verbatim>\<open>result.rows\<close>. An
  \<^verbatim>\<open>INSERT\<close> draws its \<open>id\<close> from the sequence before the constraint is checked, so
  a violated one still advances the sequence. A new row is listed last. The statements of
  the source ask for no order (there is no \<^verbatim>\<open>ORDER BY\<close>), so which of several matching
  rows a store lists first is its own business: the model lists an updated row where it
  was, and a property of two successive lookups is stated below for every order in which
  the rows may be listed.
\<close>

fun exec :: "sql \<Rightarrow> db \<Rightarrow> (db_error + user_row list) \<times> db" where
  "exec (SelectByOid a) d = (Inr (filter (\<lambda>r. azure_oid r = a) (rows d)), d)"
| "exec (InsertUser a e n) d =
     (if unique_oid d \<and> a \<in> set (map azure_oid (rows d))
      then (Inl UniqueViolation, d\<lparr>next_id := Suc (next_id d)\<rparr>)
      else
        let r = new_row a e n d
        in (Inr [r], d\<lparr>rows := rows d @ [r], next_id := Suc (next_id d)\<rparr>))"
| "exec (UpdateUser n e i) d =
     (let rs = map (touch_row n e i (clock d)) (rows d)
      in (Inr (filter (\<lambda>r. id_col r = i) rs), d\<lparr>rows := rs\<rparr>))"
| "exec (SelectById i) d = (Inr (filter (\<lambda>r. id_col r = i) (rows d)), d)"

text \<open>\<^verbatim>\<open>query: (text, params) => pool.query(text, params)\<close>: rejects when the store is
  unreachable, and runs the statement otherwise.\<close>

definition log_query :: "sql \<Rightarrow> db \<Rightarrow> db" where
  "log_query q d = d\<lparr>faults := tl (faults d), issued := issued d @ [q]\<rparr>"

definition raises :: "db \<Rightarrow> bool" where
  "raises d = (case faults d of [] \<Rightarrow> False | f # _ \<Rightarrow> f)"

definition query :: "sql \<Rightarrow> db \<Rightarrow> (db_error + user_row list) \<times> db" where
  "query q d =
     (if raises d then (Inl Unreachable, log_query q d)
      else exec q (log_query q d))"

text \<open>\<^verbatim>\<open>result.rows[0]\<close>, which is \<^verbatim>\<open>undefined\<close> on an empty result.\<close>

definition first_row :: "user_row list \<Rightarrow> user_row option" where
  "first_row rs = (case rs of [] \<Rightarrow> None | r # _ \<Rightarrow> Some r)"

subsection \<open>The verify callback of the OIDC strategy\<close>

text \<open>
  The callback ends in \<^verbatim>\<open>done(err, null)\<close> (\<open>Inl\<close>) or \<^verbatim>\<open>done(null, user)\<close>
  (\<open>Inr\<close>, where \<^verbatim>\<open>user\<close> may be \<^verbatim>\<open>undefined\<close>).
\<close>

datatype error = MissingIdentifier | DirectoryError db_error

type_synonym outcome = "error + user_row option"

text \<open>Lines 210 to 231 with the \<^verbatim>\<open>catch\<close> of lines 233 to 236: what the callback does
  once the lookup has answered with \<^verbatim>\<open>user\<close>.\<close>

definition after_lookup ::
  "string \<Rightarrow> string \<Rightarrow> string \<Rightarrow> user_row option \<Rightarrow> db \<Rightarrow> outcome \<times> db" where
  "after_lookup azureOid em nm user d =
     (case user of
        None \<Rightarrow>
          (case query (InsertUser azureOid em nm) d of
             (Inl err, d1) \<Rightarrow> (Inl (DirectoryError err), d1)
           | (Inr insertResult, d1) \<Rightarrow> (Inr (first_row insertResult), d1))
      | Some u \<Rightarrow>
          if name u \<noteq> nm \<or> email u \<noteq> em then
            (case query (UpdateUser nm em (id_col u)) d of
               (Inl err, d1) \<Rightarrow> (Inl (DirectoryError err), d1)
             | (Inr updateResult, d1) \<Rightarrow> (Inr (first_row updateResult), d1))
          else (Inr (Some u), d))"

text \<open>The \<^verbatim>\<open>try\<close> block, lines 206 to 236: the spec's \<open>resolve\<close>.\<close>

definition resolve :: "string \<Rightarrow> string \<Rightarrow> string \<Rightarrow> db \<Rightarrow> outcome \<times> db" where
  "resolve azureOid em nm d =
     (case query (SelectByOid azureOid) d of
        (Inl err, d1) \<Rightarrow> (Inl (DirectoryError err), d1)
      | (Inr userResult, d1) \<Rightarrow> after_lookup azureOid em nm (first_row userResult) d1)"

text \<open>The whole callback, lines 193 to 237. Both extracted values are truthy where
  \<open>resolve\<close> is reached, so the \<open>None\<close> branches below are the guard's as well.\<close>

definition verify :: "profile \<Rightarrow> db \<Rightarrow> outcome \<times> db" where
  "verify p d =
     (let azureOid = oid p; em = extract_email p; nm = extract_name p
      in if \<not> truthy azureOid \<or> \<not> truthy em then (Inl MissingIdentifier, d)
         else
           (case (azureOid, em, nm) of
              (Some a, Some e, Some n) \<Rightarrow> resolve a e n d
            | _ \<Rightarrow> (Inl MissingIdentifier, d)))"

subsection \<open>The callback as a process: one step per awaited query\<close>

text \<open>
  Each \<^verbatim>\<open>await db.query(...)\<close> is a point where another request may run. A call is
  about to look up, has looked up and is about to act on what it saw, or has finished.
\<close>

datatype call =
    Lookup string string string
  | Decide string string string "user_row option"
  | Finished outcome

fun step :: "call \<Rightarrow> db \<Rightarrow> call \<times> db" where
  "step (Lookup a e n) d =
     (case query (SelectByOid a) d of
        (Inl err, d1) \<Rightarrow> (Finished (Inl (DirectoryError err)), d1)
      | (Inr userResult, d1) \<Rightarrow> (Decide a e n (first_row userResult), d1))"
| "step (Decide a e n user) d =
     (case after_lookup a e n user d of (res, d1) \<Rightarrow> (Finished res, d1))"
| "step (Finished res) d = (Finished res, d)"

text \<open>A schedule names, step by step, the call that runs next.\<close>

fun run :: "nat list \<Rightarrow> call list \<Rightarrow> db \<Rightarrow> call list \<times> db" where
  "run [] cs d = (cs, d)"
| "run (i # sched) cs d =
     (if i < length cs
      then (case step (cs ! i) d of (c, d1) \<Rightarrow> run sched (cs[i := c]) d1)
      else run sched cs d)"

fun is_finished :: "call \<Rightarrow> bool" where
  "is_finished (Finished _) = True"
| "is_finished _ = False"

text \<open>What a call knows about the external subject id \<open>a\<close> it works for: a call that
  found a row, or has finished, has seen a row with that id in the table.\<close>

fun seen :: "string \<Rightarrow> db \<Rightarrow> call \<Rightarrow> bool" where
  "seen a d (Lookup b _ _) = (b = a)"
| "seen a d (Decide b _ _ None) = (b = a)"
| "seen a d (Decide b _ _ (Some _)) = (b = a \<and> a \<in> set (map azure_oid (rows d)))"
| "seen a d (Finished _) = (a \<in> set (map azure_oid (rows d)))"

subsection \<open>Sessions\<close>

text \<open>
  The session store of express-session, by contract: a session is stored under its id
  with the expiry of its cookie (\<^verbatim>\<open>maxAge: 24 * 60 * 60 * 1000\<close>) and is no longer
  found once \<^verbatim>\<open>expires <= Date.now()\<close> or after \<^verbatim>\<open>destroy\<close>. passport keeps the
  serialized user under \<^verbatim>\<open>session.passport.user\<close>.
\<close>

type_synonym sid = string

record session =
  passport_user :: "nat option"
  expires :: nat

definition maxAge :: nat where
  "maxAge = 24 * 60 * 60 * 1000"

record server =
  directory :: db
  store :: "(sid \<times> session) list"
  now :: nat
  frontend_url :: string

text \<open>\<^verbatim>\<open>passport.serializeUser((user, done) => { done(null, user.id); })\<close>\<close>

definition serializeUser :: "user_row \<Rightarrow> nat" where
  "serializeUser user = id_col user"

text \<open>\<^verbatim>\<open>passport.deserializeUser\<close>, lines 244 to 252: \<^verbatim>\<open>done(null, user || false)\<close>,
  or \<^verbatim>\<open>done(err, null)\<close> from the \<^verbatim>\<open>catch\<close>.\<close>

definition deserializeUser :: "nat \<Rightarrow> db \<Rightarrow> outcome \<times> db" where
  "deserializeUser i d =
     (case query (SelectById i) d of
        (Inl err, d1) \<Rightarrow> (Inl (DirectoryError err), d1)
      | (Inr userResult, d1) \<Rightarrow> (Inr (first_row userResult), d1))"

definition find_session :: "sid \<Rightarrow> server \<Rightarrow> session option" where
  "find_session k s =
     (case map_of (store s) k of
        None \<Rightarrow> None
      | Some sess \<Rightarrow> if expires sess \<le> now s then None else Some sess)"

definition put_session :: "sid \<Rightarrow> session \<Rightarrow> server \<Rightarrow> server" where
  "put_session k sess s = s\<lparr>store := (k, sess) # filter (\<lambda>(k', _). k' \<noteq> k) (store s)\<rparr>"

text \<open>\<open>establish\<close>: \<^verbatim>\<open>req.logIn(user)\<close> stores \<^verbatim>\<open>serializeUser(user)\<close> in the session
  of the request.\<close>

definition establish :: "user_row \<Rightarrow> sid \<Rightarrow> server \<Rightarrow> server" where
  "establish user k s =
     put_session k \<lparr>passport_user = Some (serializeUser user), expires = now s + maxAge\<rparr> s"

text \<open>\<open>destroy\<close>: \<^verbatim>\<open>req.session.destroy\<close>.\<close>

definition destroy :: "sid \<Rightarrow> server \<Rightarrow> server" where
  "destroy k s = s\<lparr>store := filter (\<lambda>(k', _). k' \<noteq> k) (store s)\<rparr>"

text \<open>
  \<open>validate\<close>: the session middleware followed by \<^verbatim>\<open>passport.session()\<close>. The result
  is \<^verbatim>\<open>req.user\<close>, or the error given to \<^verbatim>\<open>next(err)\<close>. A session whose user is
  not found loses its \<^verbatim>\<open>passport.user\<close>.
\<close>

definition validate :: "sid option \<Rightarrow> server \<Rightarrow> outcome \<times> server" where
  "validate cookie s =
     (case cookie of
        None \<Rightarrow> (Inr None, s)
      | Some k \<Rightarrow>
          (case find_session k s of
             None \<Rightarrow> (Inr None, s)
           | Some sess \<Rightarrow>
               (case passport_user sess of
                  None \<Rightarrow> (Inr None, s)
                | Some i \<Rightarrow>
                    (case deserializeUser i (directory s) of
                       (Inl err, d1) \<Rightarrow> (Inl err, s\<lparr>directory := d1\<rparr>)
                     | (Inr None, d1) \<Rightarrow>
                         (Inr None,
                          put_session k (sess\<lparr>passport_user := None\<rparr>) (s\<lparr>directory := d1\<rparr>))
                     | (Inr (Some user), d1) \<Rightarrow> (Inr (Some user), s\<lparr>directory := d1\<rparr>)))))"

subsection \<open>Routes\<close>

datatype js =
    JBool bool
  | JNum nat
  | JStr string
  | JObj "(string \<times> js) list"

text \<open>A response: \<^verbatim>\<open>res.status(c).json(v)\<close>, \<^verbatim>\<open>res.status(c).send(html)\<close>,
  \<^verbatim>\<open>res.redirect(url)\<close>, or the error handler reached through \<^verbatim>\<open>next(err)\<close>
  (the source registers none of its own, so this is the framework's 500).\<close>

datatype response =
    Json nat js
  | Send nat string
  | Redirect string
  | ServerError error

record request =
  cookie_sid :: "sid option"
  sessionID :: sid

text \<open>The handler of \<^verbatim>\<open>GET /api/user\<close>, lines 275 to 298, on \<^verbatim>\<open>req.user\<close>;
  \<^verbatim>\<open>req.isAuthenticated()\<close> is whether \<^verbatim>\<open>req.user\<close> is set.\<close>

definition api_user_handler :: "user_row option \<Rightarrow> response" where
  "api_user_handler req_user =
     (case req_user of
        Some u \<Rightarrow>
          Json 200 (JObj [(''success'', JBool True),
                          (''user'', JObj [(''id'', JNum (id_col u)),
                                           (''name'', JStr (name u)),
                                           (''email'', JStr (email u)),
                                           (''role'', JStr (role u))])])
      | None \<Rightarrow>
          Json 401 (JObj [(''success'', JBool False),
                          (''message'', JStr ''Not authenticated'')]))"

text \<open>A request to \<^verbatim>\<open>GET /api/user\<close>: the middleware, then the handler.\<close>

definition api_user :: "request \<Rightarrow> server \<Rightarrow> response \<times> server" where
  "api_user req s =
     (case validate (cookie_sid req) s of
        (Inl err, s1) \<Rightarrow> (ServerError err, s1)
      | (Inr req_user, s1) \<Rightarrow> (api_user_handler req_user, s1))"

text \<open>\<^verbatim>\<open>GET /login-failed\<close>, lines 320 to 322.\<close>

definition login_failed :: response where
  "login_failed =
     Send 401 ''<h1>Login Failed</h1><p>There was an error authenticating. Please check your terminal logs and Azure configuration.</p><a href=\"/\">Home</a>''"

text \<open>
  \<^verbatim>\<open>POST /auth/openid/return\<close>, lines 262 to 272. The handshake either fails at the
  issuer or yields a profile, on which the strategy runs the verify callback.
  \<^verbatim>\<open>passport.authenticate(..., { failureRedirect: '/login-failed' })\<close> hands an error
  to \<^verbatim>\<open>next(err)\<close>, redirects a failure to \<^verbatim>\<open>/login-failed\<close>, and on success logs
  the user in and runs the handler, which redirects to the dashboard of the frontend.
\<close>

datatype handshake = IssuerRejected | Accepted profile

definition auth_return :: "handshake \<Rightarrow> request \<Rightarrow> server \<Rightarrow> response \<times> server" where
  "auth_return h req s =
     (case h of
        IssuerRejected \<Rightarrow> (Redirect ''/login-failed'', s)
      | Accepted p \<Rightarrow>
          (case verify p (directory s) of
             (Inl err, d1) \<Rightarrow> (ServerError err, s\<lparr>directory := d1\<rparr>)
           | (Inr None, d1) \<Rightarrow> (Redirect ''/login-failed'', s\<lparr>directory := d1\<rparr>)
           | (Inr (Some user), d1) \<Rightarrow>
               (Redirect (frontend_url s @ ''/dashboard?session='' @ sessionID req),
                establish user (sessionID req) (s\<lparr>directory := d1\<rparr>))))"

text \<open>\<^verbatim>\<open>GET /logout\<close>, lines 301 to 308.\<close>

definition logout :: "request \<Rightarrow> server \<Rightarrow> response \<times> server" where
  "logout req s =
     (case validate (cookie_sid req) s of
        (Inl err, s1) \<Rightarrow> (ServerError err, s1)
      | (Inr _, s1) \<Rightarrow>
          (Redirect (frontend_url s1),
           (case cookie_sid req of None \<Rightarrow> s1 | Some k \<Rightarrow> destroy k s1)))"

subsection \<open>Vocabulary of the statements\<close>

text \<open>The store answers the next \<open>k\<close> queries.\<close>

definition reachable :: "nat \<Rightarrow> db \<Rightarrow> bool" where
  "reachable k d = (True \<notin> set (take k (faults d)))"

text \<open>The statements sent between two states of the connection.\<close>

definition sent :: "db \<Rightarrow> db \<Rightarrow> sql list" where
  "sent d d' = drop (length (issued d)) (issued d')"

text \<open>The first value in a list of candidates that is present, that is, truthy.\<close>

fun first_present :: "jsstr list \<Rightarrow> jsstr" where
  "first_present [] = None"
| "first_present (v # vs) = (if truthy v then v else first_present vs)"

text \<open>The user id held by the live session a request presents, if any: none without a
  cookie, for an id the store does not hold, for an expired session, and for a session
  that holds no user.\<close>

definition session_user :: "request \<Rightarrow> server \<Rightarrow> nat option" where
  "session_user req s =
     (case cookie_sid req of
        None \<Rightarrow> None
      | Some k \<Rightarrow> (case find_session k s of None \<Rightarrow> None | Some sess \<Rightarrow> passport_user sess))"

text \<open>No two rows share an external subject id.\<close>

definition injective_oid :: "db \<Rightarrow> bool" where
  "injective_oid d = distinct (map azure_oid (rows d))"

text \<open>The column \<open>id\<close> is a key of the table.\<close>

definition key_id :: "db \<Rightarrow> bool" where
  "key_id d = distinct (map id_col (rows d))"

text \<open>The sequence behind \<open>id\<close> is ahead of every id in the table.\<close>

definition fresh_ids :: "db \<Rightarrow> bool" where
  "fresh_ids d = list_all (\<lambda>r. id_col r < next_id d) (rows d)"

text \<open>The table carries the uniqueness constraint, the store answers every query, and at
  most one row has the external subject id \<open>a\<close>.\<close>

definition quiet :: "string \<Rightarrow> db \<Rightarrow> bool" where
  "quiet a d =
     (unique_oid d \<and> faults d = [] \<and> length (filter (\<lambda>r. azure_oid r = a) (rows d)) \<le> 1)"

subsection \<open>Example states\<close>

text \<open>An empty table with the uniqueness constraint, a first login, and the state it leaves.\<close>

definition empty_db :: db where
  "empty_db = \<lparr>rows = [], next_id = 1, clock = 100, unique_oid = True,
               default_role = ''customer'', faults = [], issued = []\<rparr>"

definition alice_profile :: profile where
  "alice_profile = \<lparr>oid = Some ''oid-alice'', upn = Some ''alice@princeton.edu'',
                    json = None, emails = None, displayName = Some ''Alice''\<rparr>"

definition alice :: user_row where
  "alice = \<lparr>id_col = 1, azure_oid = ''oid-alice'', email = ''alice@princeton.edu'',
            name = ''Alice'', role = ''customer'', created_at = 100, updated_at = 100\<rparr>"

definition alice_db :: db where
  "alice_db = \<lparr>rows = [alice], next_id = 2, clock = 100, unique_oid = True,
               default_role = ''customer'', faults = [],
               issued = [SelectByOid ''oid-alice'',
                         InsertUser ''oid-alice'' ''alice@princeton.edu'' ''Alice'']\<rparr>"

text \<open>A store that answers one query and then cannot be reached.\<close>

definition outage_db :: db where
  "outage_db = \<lparr>rows = [], next_id = 1, clock = 100, unique_oid = True,
                default_role = ''customer'', faults = [False, True], issued = []\<rparr>"

text \<open>A profile with no \<^verbatim>\<open>upn\<close> and no display name, and one with no email at all.\<close>

definition guest_profile :: profile where
  "guest_profile = \<lparr>oid = Some ''oid-guest'', upn = None,
                    json = Some \<lparr>json_email = Some ''guest@princeton.edu''\<rparr>,
                    emails = Some [\<lparr>entry_value = Some ''other@princeton.edu''\<rparr>],
                    displayName = None\<rparr>"

definition anonymous_profile :: profile where
  "anonymous_profile = \<lparr>oid = Some ''oid-anon'', upn = None, json = None,
                        emails = Some [], displayName = Some ''Anon''\<rparr>"

definition example_server :: server where
  "example_server = \<lparr>directory = alice_db, store = [], now = 1000,
                     frontend_url = ''https://unieats.example''\<rparr>"

definition example_request :: request where
  "example_request = \<lparr>cookie_sid = None, sessionID = ''sid-1''\<rparr>"

text \<open>A server that holds a live session of the first user while the store is down, and
  the request that presents it.\<close>

definition outage_server :: server where
  "outage_server =
     \<lparr>directory = alice_db\<lparr>faults := [True]\<rparr>,
      store = [(''sid-1'', \<lparr>passport_user = Some 1, expires = 5000\<rparr>)],
      now = 1000, frontend_url = ''https://unieats.example''\<rparr>"

definition cookie_request :: request where
  "cookie_request = \<lparr>cookie_sid = Some ''sid-1'', sessionID = ''sid-1''\<rparr>"

text \<open>A server with a live session of the first user, one whose session names a user that
  is not in the table, and two first logins of the same new user.\<close>

definition session_server :: server where
  "session_server =
     \<lparr>directory = alice_db,
      store = [(''sid-1'', \<lparr>passport_user = Some 1, expires = 5000\<rparr>)],
      now = 1000, frontend_url = ''https://unieats.example''\<rparr>"

definition stale_server :: server where
  "stale_server =
     \<lparr>directory = alice_db,
      store = [(''sid-1'', \<lparr>passport_user = Some 7, expires = 5000\<rparr>)],
      now = 1000, frontend_url = ''https://unieats.example''\<rparr>"

definition race_calls :: "call list" where
  "race_calls = [Lookup ''oid-alice'' ''alice@princeton.edu'' ''Alice'',
                 Lookup ''oid-alice'' ''alice@princeton.edu'' ''Alice'']"

text \<open>A table with two users, a login of the first under a new display name, and the
  state it leaves.\<close>

definition bob :: user_row where
  "bob = \<lparr>id_col = 2, azure_oid = ''oid-bob'', email = ''bob@princeton.edu'',
          name = ''Bob'', role = ''customer'', created_at = 150, updated_at = 150\<rparr>"

definition campus_db :: db where
  "campus_db = \<lparr>rows = [alice, bob], next_id = 3, clock = 200, unique_oid = True,
                default_role = ''customer'', faults = [], issued = []\<rparr>"

definition renamed_profile :: profile where
  "renamed_profile = \<lparr>oid = Some ''oid-alice'', upn = Some ''alice@princeton.edu'',
                      json = None, emails = None, displayName = Some ''Alice B''\<rparr>"

definition alice_renamed :: user_row where
  "alice_renamed = \<lparr>id_col = 1, azure_oid = ''oid-alice'', email = ''alice@princeton.edu'',
                    name = ''Alice B'', role = ''customer'', created_at = 100, updated_at = 200\<rparr>"

definition campus_after :: db where
  "campus_after = \<lparr>rows = [alice_renamed, bob], next_id = 3, clock = 200, unique_oid = True,
                   default_role = ''customer'', faults = [],
                   issued = [SelectByOid ''oid-alice'',
                             UpdateUser ''Alice B'' ''alice@princeton.edu'' 1]\<rparr>"

text \<open>A profile whose \<^verbatim>\<open>upn\<close> and display name are empty strings and whose only email
  is the first entry of the emails list.\<close>

definition list_profile :: profile where
  "list_profile = \<lparr>oid = Some ''oid-list'', upn = Some [],
                   json = Some \<lparr>json_email = None\<rparr>,
                   emails = Some [\<lparr>entry_value = Some ''list@princeton.edu''\<rparr>,
                                  \<lparr>entry_value = Some ''second@princeton.edu''\<rparr>],
                   displayName = Some []\<rparr>"

section \<open>Properties\<close>

subsection \<open>The store and the ways of a call\<close>

lemma log_query_sel [simp]: "rows (log_query q d) = rows d" "next_id (log_query q d) = next_id d"
  "clock (log_query q d) = clock d" "unique_oid (log_query q d) = unique_oid d"
  "default_role (log_query q d) = default_role d" "faults (log_query q d) = tl (faults d)"
  "issued (log_query q d) = issued d @ [q]"
  by (simp_all add: log_query_def)

lemma new_row_sel [simp]: "id_col (new_row a e n d) = next_id d" "azure_oid (new_row a e n d) = a"
  "email (new_row a e n d) = e" "name (new_row a e n d) = n"
  by (simp_all add: new_row_def)

lemma new_row_log_query [simp]: "new_row a e n (log_query q d) = new_row a e n d"
  by (simp add: new_row_def)

lemma touch_row_sel [simp]: "id_col (touch_row n e i t r) = id_col r"
  "azure_oid (touch_row n e i t r) = azure_oid r"
  by (simp_all add: touch_row_def)

lemma filter_touch_oid:
  "filter (\<lambda>r. azure_oid r = a) (map (touch_row n e i t) rs) = map (touch_row n e i t) (filter (\<lambda>r. azure_oid r = a) rs)"
  by (induction rs) simp_all

lemma filter_touch_id:
  "filter (\<lambda>r. id_col r = j) (map (touch_row n e i t) rs) = map (touch_row n e i t) (filter (\<lambda>r. id_col r = j) rs)"
  by (induction rs) simp_all

lemma first_row_simps [simp]: "first_row [] = None" "first_row (r # rs) = Some r"
  by (simp_all add: first_row_def)

lemma first_row_None [simp]: "first_row rs = None \<longleftrightarrow> rs = []"
  by (cases rs) (simp_all add: first_row_def)

lemma first_row_Some: "first_row rs = Some r \<longleftrightarrow> (\<exists>ys. rs = r # ys)"
  by (cases rs) (auto simp add: first_row_def)

lemma first_row_map: "first_row (map f rs) = map_option f (first_row rs)"
  by (cases rs) (simp_all add: first_row_def)

lemma first_row_filter_mem: "first_row (filter P rs) = Some r \<Longrightarrow> r \<in> set rs \<and> P r"
  by (metis first_row_Some filter_eq_ConsD in_set_conv_decomp)

lemma filter_oid_empty: "filter (\<lambda>r. azure_oid r = a) rs = [] \<longleftrightarrow> a \<notin> set (map azure_oid rs)"
  by (auto simp: filter_empty_conv)

lemma reachable_Suc: "reachable (Suc k) d \<longleftrightarrow> \<not> raises d \<and> reachable k (log_query q d)"
  by (cases "faults d") (auto simp: reachable_def raises_def)

lemma reachable_0 [simp]: "reachable 0 d"
  by (simp add: reachable_def)

text \<open>Every way a call of \<open>resolve\<close> can go: the lookup raises; nothing is found and the
  insert raises or succeeds; a differing row is found and the update raises or succeeds;
  an equal row is found.\<close>

lemma resolve_cases [consumes 1, case_names lookup_raises insert_raises inserted update_raises updated unchanged]:
  assumes "resolve a e n d = (res, d')"
  obtains
    "raises d" "res = Inl (DirectoryError Unreachable)" "d' = log_query (SelectByOid a) d"
  | "\<not> raises d" "first_row (filter (\<lambda>r. azure_oid r = a) (rows d)) = None"
    "raises (log_query (SelectByOid a) d)" "res = Inl (DirectoryError Unreachable)"
    "d' = log_query (InsertUser a e n) (log_query (SelectByOid a) d)"
  | "\<not> raises d" "first_row (filter (\<lambda>r. azure_oid r = a) (rows d)) = None"
    "\<not> raises (log_query (SelectByOid a) d)" "res = Inr (Some (new_row a e n d))"
    "d' = (log_query (InsertUser a e n) (log_query (SelectByOid a) d))
            \<lparr>rows := rows d @ [new_row a e n d], next_id := Suc (next_id d)\<rparr>"
  | u where "\<not> raises d" "first_row (filter (\<lambda>r. azure_oid r = a) (rows d)) = Some u"
    "name u \<noteq> n \<or> email u \<noteq> e" "raises (log_query (SelectByOid a) d)"
    "res = Inl (DirectoryError Unreachable)"
    "d' = log_query (UpdateUser n e (id_col u)) (log_query (SelectByOid a) d)"
  | u where "\<not> raises d" "first_row (filter (\<lambda>r. azure_oid r = a) (rows d)) = Some u"
    "name u \<noteq> n \<or> email u \<noteq> e" "\<not> raises (log_query (SelectByOid a) d)"
    "res = Inr (first_row (filter (\<lambda>r. id_col r = id_col u)
                    (map (touch_row n e (id_col u) (clock d)) (rows d))))"
    "d' = (log_query (UpdateUser n e (id_col u)) (log_query (SelectByOid a) d))
            \<lparr>rows := map (touch_row n e (id_col u) (clock d)) (rows d)\<rparr>"
  | u where "\<not> raises d" "first_row (filter (\<lambda>r. azure_oid r = a) (rows d)) = Some u"
    "name u = n" "email u = e" "res = Inr (Some u)" "d' = log_query (SelectByOid a) d"
proof (cases "raises d")
  case True
  with assms show ?thesis
    by (intro that(1)) (simp_all add: resolve_def query_def)
next
  case False
  let ?dL = "log_query (SelectByOid a) d"
  let ?found = "first_row (filter (\<lambda>r. azure_oid r = a) (rows d))"
  from False assms have al: "after_lookup a e n ?found ?dL = (res, d')"
    by (simp add: resolve_def query_def)
  show ?thesis
  proof (cases ?found)
    case None
    then have fresh: "a \<notin> set (map azure_oid (rows d))"
      by (simp add: filter_oid_empty del: set_map)
    show ?thesis
    proof (cases "raises ?dL")
      case True
      with al None False show ?thesis
        by (intro that(2)) (simp_all add: after_lookup_def query_def)
    next
      case nr: False
      with al None False fresh show ?thesis
        by (intro that(3)) (auto simp: after_lookup_def query_def Let_def first_row_def)
    qed
  next
    case (Some u)
    show ?thesis
    proof (cases "name u \<noteq> n \<or> email u \<noteq> e")
      case changed: True
      show ?thesis
      proof (cases "raises ?dL")
        case True
        with al Some False changed show ?thesis
          by (intro that(4) [of u]) (auto simp: after_lookup_def query_def)
      next
        case nr: False
        with al Some False changed show ?thesis
          by (intro that(5) [of u]) (auto simp: after_lookup_def query_def Let_def)
      qed
    next
      case same: False
      with al Some False show ?thesis
        by (intro that(6) [of u]) (auto simp: after_lookup_def)
    qed
  qed
qed

subsection \<open>The profile and the guard\<close>

lemma truthy_iff: "truthy v \<longleftrightarrow> (\<exists>s. v = Some s \<and> s \<noteq> [])"
  by (cases v) (auto simp: truthy_def)

lemma truthy_None [simp]: "\<not> truthy None"
  by (simp add: truthy_def)

lemma extract_name_present: "\<exists>n. extract_name p = Some n \<and> n \<noteq> []"
  by (auto simp: extract_name_def js_or_def truthy_iff)

lemma extract_name_first_present: "extract_name p = first_present [displayName p, Some ''UniEats User'']"
  by (simp add: extract_name_def js_or_def truthy_def)

lemma extract_email_first_present:
  "truthy (extract_email p) \<longleftrightarrow> truthy (first_present [upn p, json_email_of p, first_email_of p])"
  "truthy (extract_email p) \<Longrightarrow> extract_email p = first_present [upn p, json_email_of p, first_email_of p]"
  by (auto simp: extract_email_def js_or_def)

lemma extract_email_absent:
  "\<not> truthy (extract_email p) \<longleftrightarrow> \<not> truthy (upn p) \<and> \<not> truthy (json_email_of p) \<and> \<not> truthy (first_email_of p)"
  by (auto simp: extract_email_def js_or_def)

lemma verify_rejected:
  "\<not> truthy (oid p) \<or> \<not> truthy (extract_email p) \<Longrightarrow> verify p d = (Inl MissingIdentifier, d)"
  by (auto simp: verify_def Let_def)

lemma verify_accepted:
  assumes "truthy (oid p)" "truthy (extract_email p)"
  shows "\<exists>a e n. oid p = Some a \<and> extract_email p = Some e \<and> extract_name p = Some n
           \<and> a \<noteq> [] \<and> e \<noteq> [] \<and> (\<forall>d. verify p d = resolve a e n d)"
proof -
  from assms obtain a e where ae: "oid p = Some a" "a \<noteq> []" "extract_email p = Some e" "e \<noteq> []"
    by (auto simp: truthy_iff)
  obtain n where n: "extract_name p = Some n" using extract_name_present by blast
  have "\<forall>d. verify p d = resolve a e n d"
    using assms ae n by (simp add: verify_def Let_def)
  with ae n show ?thesis by blast
qed

lemma verify_Inr_accepted:
  assumes "verify p d = (Inr r, d')"
  shows "truthy (oid p) \<and> truthy (extract_email p)"
  using assms verify_rejected [of p d] by auto

subsection \<open>What a call of \<open>resolve\<close> returns and leaves behind\<close>

lemma resolve_found:
  assumes "resolve a e n d = (Inr (Some u1), d1)"
  shows "\<exists>u. first_row (filter (\<lambda>r. azure_oid r = a) (rows d1)) = Some u \<and> name u = n \<and> email u = e \<and> id_col u = id_col u1"
  using assms
proof (cases rule: resolve_cases)
  case inserted
  then have "filter (\<lambda>r. azure_oid r = a) (rows d) = []" "u1 = new_row a e n d"
    "rows d1 = rows d @ [new_row a e n d]" by simp_all
  then show ?thesis by (simp add: first_row_def)
next
  case (updated u)
  from updated(5) have "first_row (filter (\<lambda>r. id_col r = id_col u) (map (touch_row n e (id_col u) (clock d)) (rows d))) = Some u1"
    by simp
  from first_row_filter_mem [OF this] have "id_col u1 = id_col u" by simp
  moreover have "first_row (filter (\<lambda>r. azure_oid r = a) (rows d1)) = Some (touch_row n e (id_col u) (clock d) u)"
    by (simp add: updated(6) filter_touch_oid first_row_map updated(2))
  ultimately show ?thesis by (simp add: touch_row_def)
next
  case (unchanged u)
  then show ?thesis by simp
qed simp_all

lemma resolve_same:
  assumes "reachable (Suc k) d" "first_row (filter (\<lambda>r. azure_oid r = a) (rows d)) = Some u"
    "name u = n" "email u = e"
  shows "resolve a e n d = (Inr (Some u), log_query (SelectByOid a) d)"
  using assms reachable_Suc [of k d "SelectByOid a"]
  by (simp add: resolve_def query_def after_lookup_def)

lemma resolve_returned:
  assumes "resolve a e n d = (Inr (Some u), d')"
  shows "u \<in> set (rows d') \<and> email u = e \<and> name u = n"
  using assms
proof (cases rule: resolve_cases)
  case inserted
  then show ?thesis by simp
next
  case (updated w)
  from updated(5) have "first_row (filter (\<lambda>r. id_col r = id_col w) (map (touch_row n e (id_col w) (clock d)) (rows d))) = Some u"
    by simp
  from first_row_filter_mem [OF this]
  have m: "u \<in> set (map (touch_row n e (id_col w) (clock d)) (rows d))" and i: "id_col u = id_col w"
    by simp_all
  from m obtain r0 where r0: "u = touch_row n e (id_col w) (clock d) r0" by auto
  with i have "id_col r0 = id_col w" by simp
  with r0 have "email u = e \<and> name u = n" by (simp add: touch_row_def)
  with m updated(6) show ?thesis by simp
next
  case (unchanged w)
  then show ?thesis using first_row_filter_mem [of "\<lambda>r. azure_oid r = a" "rows d" w] by simp
qed simp_all

lemma reachable_2: "reachable 2 d \<Longrightarrow> \<not> raises d \<and> \<not> raises (log_query q d)"
  using reachable_Suc [of "Suc 0" d q] reachable_Suc [of 0 "log_query q d" q]
  by (simp add: numeral_2_eq_2)

lemma resolve_returns:
  assumes "reachable 2 d"
  shows "\<exists>u d'. resolve a e n d = (Inr (Some u), d')"
proof -
  have nr: "\<not> raises d" "\<not> raises (log_query (SelectByOid a) d)"
    using assms reachable_2 by blast+
  obtain res d' where r: "resolve a e n d = (res, d')" by (cases "resolve a e n d")
  from r show ?thesis
  proof (cases rule: resolve_cases)
    case (updated w)
    from updated(2) have "w \<in> set (rows d)" using first_row_filter_mem by fastforce
    then have "filter (\<lambda>r. id_col r = id_col w) (rows d) \<noteq> []"
      by (auto simp: filter_empty_conv)
    then obtain x where "first_row (filter (\<lambda>r. id_col r = id_col w) (map (touch_row n e (id_col w) (clock d)) (rows d))) = Some x"
      by (cases "filter (\<lambda>r. id_col r = id_col w) (rows d)") (simp_all add: filter_touch_id first_row_def)
    with r updated(5) show ?thesis by simp
  qed (use r nr in simp_all)
qed

lemma oid_touch [simp]: "azure_oid \<circ> touch_row n e i t = azure_oid"
  by (rule ext) simp

lemma id_touch [simp]: "id_col \<circ> touch_row n e i t = id_col"
  by (rule ext) simp

lemma fault_not_first: "\<not> raises d \<Longrightarrow> k < length (faults d) \<Longrightarrow> faults d ! k \<Longrightarrow> k \<noteq> 0"
  by (rule notI, cases "faults d") (simp_all add: raises_def)

lemma fault_not_second:
  "\<not> raises (log_query q d) \<Longrightarrow> k < length (faults d) \<Longrightarrow> faults d ! k \<Longrightarrow> k \<noteq> Suc 0"
  by (rule notI, cases "faults d"; cases "tl (faults d)") (simp_all add: raises_def)

lemma less_two_cases: "k < Suc (Suc 0) \<Longrightarrow> k = 0 \<or> k = Suc 0"
  by arith

lemma filter_key:
  "distinct (map f xs) \<Longrightarrow> x \<in> set xs \<Longrightarrow> filter (\<lambda>y. f y = f x) xs = [x]"
proof (induction xs)
  case Nil
  then show ?case by simp
next
  case (Cons y ys)
  show ?case
  proof (cases "y = x")
    case True
    with Cons.prems have nin: "f x \<notin> f ` set ys" by simp
    have "filter (\<lambda>y. f y = f x) ys = []"
    proof -
      have "f z \<noteq> f x" if "z \<in> set ys" for z
        using that nin by (metis imageI)
      then show ?thesis by (simp add: filter_empty_conv)
    qed
    with True show ?thesis by simp
  next
    case False
    with Cons.prems have "x \<in> set ys" "f y \<noteq> f x" by auto
    with Cons show ?thesis by simp
  qed
qed

subsection \<open>Sessions and the middleware\<close>

lemma map_of_without: "map_of (filter (\<lambda>(k', _). k' \<noteq> k) kvs) k = None"
  by (induction kvs) auto

lemma find_session_destroy: "find_session k (destroy k s) = None"
  by (simp add: find_session_def destroy_def map_of_without)

lemma validate_destroy: "validate (Some k) (destroy k s) = (Inr None, destroy k s)"
  by (simp add: validate_def find_session_destroy)

lemma deserializeUser_ways:
  "deserializeUser i d =
     (if raises d then (Inl (DirectoryError Unreachable), log_query (SelectById i) d)
      else (Inr (first_row (filter (\<lambda>r. id_col r = i) (rows d))), log_query (SelectById i) d))"
  by (simp add: deserializeUser_def query_def)

lemma validate_ways:
  "fst (validate (cookie_sid req) s) =
     (case session_user req s of
        None \<Rightarrow> Inr None
      | Some i \<Rightarrow>
          if raises (directory s) then Inl (DirectoryError Unreachable)
          else Inr (first_row (filter (\<lambda>r. id_col r = i) (rows (directory s)))))"
  by (simp add: validate_def session_user_def deserializeUser_ways split: option.splits)

lemma api_user_fst:
  "fst (api_user req s) =
     (case fst (validate (cookie_sid req) s) of Inl err \<Rightarrow> ServerError err
      | Inr req_user \<Rightarrow> api_user_handler req_user)"
  by (cases "validate (cookie_sid req) s") (simp add: api_user_def split: sum.splits)

lemma find_session_establish:
  "t < now s + maxAge \<Longrightarrow>
   find_session k ((establish u k s)\<lparr>now := t\<rparr>) = Some \<lparr>passport_user = Some (id_col u), expires = now s + maxAge\<rparr>"
  by (simp add: find_session_def establish_def put_session_def serializeUser_def)

subsection \<open>Interleaved calls\<close>

lemma run_resolve:
  "run [0, 0] [Lookup a e n] d = ([Finished (fst (resolve a e n d))], snd (resolve a e n d))"
  by (cases "raises d"; cases "after_lookup a e n (first_row (filter (\<lambda>r. azure_oid r = a) (rows d))) (log_query (SelectByOid a) d)")
     (simp_all add: resolve_def query_def)

lemma step_violation:
  assumes "unique_oid d" and "\<not> raises d" and "a \<in> set (map azure_oid (rows d))"
  shows "step (Decide a e n None) d
       = (Finished (Inl (DirectoryError UniqueViolation)),
          (log_query (InsertUser a e n) d)\<lparr>next_id := Suc (next_id d)\<rparr>)"
  using assms by (simp add: after_lookup_def query_def)

lemma step_quiet:
  assumes "quiet a d" and "seen a d c" and "step c d = (c', d')"
  shows "quiet a d' \<and> seen a d' c'
       \<and> (a \<in> set (map azure_oid (rows d)) \<longrightarrow> a \<in> set (map azure_oid (rows d')))"
proof (cases c)
  case (Lookup b e n)
  with assms show ?thesis
    by (cases "first_row (filter (\<lambda>r. azure_oid r = a) (rows d))")
       (auto simp: quiet_def query_def raises_def dest: first_row_filter_mem)
next
  case (Decide b e n user)
  with assms(2) have b: "b = a" by (cases user) simp_all
  from assms(1) have nr: "\<not> raises d" by (simp add: quiet_def raises_def)
  show ?thesis
  proof (cases user)
    case None
    show ?thesis
    proof (cases "a \<in> set (map azure_oid (rows d))")
      case True
      with assms Decide None b nr show ?thesis
        by (auto simp: quiet_def after_lookup_def query_def)
    next
      case False
      then have "filter (\<lambda>r. azure_oid r = a) (rows d) = []"
        by (simp add: filter_oid_empty del: set_map)
      with assms Decide None b nr False show ?thesis
        by (auto simp: quiet_def after_lookup_def query_def Let_def)
    qed
  next
    case (Some u)
    with assms Decide b nr show ?thesis
      by (cases "name u \<noteq> n \<or> email u \<noteq> e")
         (auto simp: quiet_def after_lookup_def query_def Let_def filter_touch_oid image_image)
  qed
next
  case (Finished res)
  with assms show ?thesis by auto
qed

lemma seen_mono:
  "seen a d c \<Longrightarrow> (a \<in> set (map azure_oid (rows d)) \<longrightarrow> a \<in> set (map azure_oid (rows d'))) \<Longrightarrow> seen a d' c"
  by (induction a d c rule: seen.induct) auto

lemma run_quiet:
  assumes "quiet a d" and "\<forall>c\<in>set cs. seen a d c" and "run sched cs d = (cs', d')"
  shows "quiet a d' \<and> (\<forall>c\<in>set cs'. seen a d' c)"
  using assms
proof (induction sched arbitrary: cs d)
  case Nil
  then show ?case by simp
next
  case (Cons i sched)
  show ?case
  proof (cases "i < length cs")
    case False
    with Cons show ?thesis by simp
  next
    case True
    obtain c d1 where st: "step (cs ! i) d = (c, d1)" by (cases "step (cs ! i) d")
    from True Cons.prems(2) have "seen a d (cs ! i)" by simp
    from step_quiet [OF Cons.prems(1) this st]
    have q: "quiet a d1" and sc: "seen a d1 c"
      and mono: "a \<in> set (map azure_oid (rows d)) \<longrightarrow> a \<in> set (map azure_oid (rows d1))"
      by blast+
    have "\<forall>x\<in>set (cs[i := c]). seen a d1 x"
    proof
      fix x assume "x \<in> set (cs[i := c])"
      then have "x = c \<or> x \<in> set cs" using set_update_subset_insert by fastforce
      then show "seen a d1 x" using sc Cons.prems(2) seen_mono [OF _ mono] by blast
    qed
    moreover from Cons.prems(3) True st have "run sched (cs[i := c]) d1 = (cs', d')" by simp
    ultimately show ?thesis using Cons.IH [OF q] by blast
  qed
qed

lemma seen_finished: "is_finished c \<Longrightarrow> seen a d c \<Longrightarrow> a \<in> set (map azure_oid (rows d))"
  by (cases c) simp_all

lemma exec_preserves_injective:
  assumes "unique_oid d" and "injective_oid d"
  shows "injective_oid (snd (exec q d)) \<and> unique_oid (snd (exec q d))"
  using assms by (cases q) (auto simp: injective_oid_def Let_def)

lemma query_preserves_injective:
  assumes "unique_oid d" and "injective_oid d"
  shows "injective_oid (snd (query q d)) \<and> unique_oid (snd (query q d))"
proof -
  have "unique_oid (log_query q d)" "injective_oid (log_query q d)"
    using assms by (simp_all add: injective_oid_def)
  from exec_preserves_injective [OF this] assms show ?thesis
    by (simp add: query_def injective_oid_def)
qed

lemma after_lookup_preserves_injective:
  assumes "unique_oid d" and "injective_oid d"
  shows "injective_oid (snd (after_lookup a e n user d)) \<and> unique_oid (snd (after_lookup a e n user d))"
proof (cases user)
  case None
  with query_preserves_injective [OF assms, of "InsertUser a e n"] show ?thesis
    by (cases "query (InsertUser a e n) d") (auto simp: after_lookup_def split: sum.splits)
next
  case (Some u)
  with query_preserves_injective [OF assms, of "UpdateUser n e (id_col u)"] assms show ?thesis
    by (cases "query (UpdateUser n e (id_col u)) d") (auto simp: after_lookup_def split: sum.splits)
qed

lemma step_preserves_injective:
  assumes "unique_oid d" and "injective_oid d"
  shows "injective_oid (snd (step c d)) \<and> unique_oid (snd (step c d))"
proof (cases c)
  case (Lookup a e n)
  with query_preserves_injective [OF assms, of "SelectByOid a"] show ?thesis
    by (cases "query (SelectByOid a) d") (auto split: sum.splits)
next
  case (Decide a e n user)
  with after_lookup_preserves_injective [OF assms, of a e n user] show ?thesis
    by (cases "after_lookup a e n user d") simp
next
  case (Finished res)
  with assms show ?thesis by simp
qed

lemma resolve_keeps_injective_oid:
  assumes "injective_oid d" and "resolve a e n d = (res, d')"
  shows "injective_oid d'"
  using assms(2)
proof (cases rule: resolve_cases)
  case inserted
  then have "a \<notin> set (map azure_oid (rows d))"
    by (simp add: filter_oid_empty del: set_map)
  with inserted assms(1) show ?thesis by (simp add: injective_oid_def)
qed (use assms(1) in \<open>simp_all add: injective_oid_def\<close>)

lemma distinct_map_listing:
  assumes "distinct (map f xs)" and "set ys = set xs" and "length ys = length xs"
  shows "distinct (map f ys)"
proof -
  from assms(1) have dx: "distinct xs" and inj: "inj_on f (set xs)"
    by (simp_all add: distinct_map)
  from dx have "card (set xs) = length xs" by (rule distinct_card)
  with assms(2,3) have "card (set ys) = length ys" by simp
  then have "distinct ys" by (rule card_distinct)
  with inj assms(2) show ?thesis by (simp add: distinct_map)
qed

section \<open>The claims\<close>

text \<open>
  C1. Calling \<open>resolve\<close> twice in succession with the same identity is idempotent, on a
  table in which no two rows share an external subject id. If the callback has returned a
  user for a profile, and the store answers the lookup of the next call, then the next call
  with the same profile, in whatever order the store lists the rows the first call left,
  returns a user with the same id, sends the lookup and nothing else (no insert, no
  update), and leaves every row and the id sequence as they were. The user it returns is
  the one row with that external subject id.
\<close>

theorem verify_idempotent:
  assumes "injective_oid d" and "verify p d = (Inr (Some u1), d1)"
    and "set rs = set (rows d1)" and "length rs = length (rows d1)"
    and "reachable 1 d1"
  shows "\<exists>u2 d2 a. verify p (d1\<lparr>rows := rs\<rparr>) = (Inr (Some u2), d2) \<and> id_col u2 = id_col u1
           \<and> rows d2 = rs \<and> next_id d2 = next_id d1
           \<and> oid p = Some a \<and> sent d1 d2 = [SelectByOid a]
           \<and> filter (\<lambda>r. azure_oid r = a) rs = [u2]"
proof -
  from assms(2) have "truthy (oid p)" "truthy (extract_email p)"
    using verify_Inr_accepted by blast+
  then obtain a e n where a: "oid p = Some a" and v: "\<And>d. verify p d = resolve a e n d"
    using verify_accepted [of p] by blast
  from assms(2) have r: "resolve a e n d = (Inr (Some u1), d1)" by (simp add: v)
  then obtain u where u: "first_row (filter (\<lambda>r. azure_oid r = a) (rows d1)) = Some u"
    "name u = n" "email u = e" "id_col u = id_col u1"
    using resolve_found by blast
  from first_row_filter_mem [OF u(1)] assms(3) have mem: "u \<in> set rs" and ua: "azure_oid u = a"
    by simp_all
  from resolve_keeps_injective_oid [OF assms(1) r] have "distinct (map azure_oid (rows d1))"
    by (simp add: injective_oid_def)
  from distinct_map_listing [OF this assms(3,4)] have "distinct (map azure_oid rs)" .
  from filter_key [OF this mem] ua have only: "filter (\<lambda>r. azure_oid r = a) rs = [u]" by simp
  from assms(5) have "reachable (Suc 0) (d1\<lparr>rows := rs\<rparr>)" by (simp add: reachable_def)
  moreover from only have "first_row (filter (\<lambda>r. azure_oid r = a) (rows (d1\<lparr>rows := rs\<rparr>))) = Some u"
    by simp
  ultimately have "verify p (d1\<lparr>rows := rs\<rparr>)
      = (Inr (Some u), log_query (SelectByOid a) (d1\<lparr>rows := rs\<rparr>))"
    using u(2,3) resolve_same by (simp add: v)
  with u a only show ?thesis by (simp add: sent_def)
qed

theorem verify_idempotent_witness:
  "injective_oid campus_db
   \<and> verify renamed_profile campus_db = (Inr (Some alice_renamed), campus_after)
   \<and> set [bob, alice_renamed] = set (rows campus_after)
   \<and> length [bob, alice_renamed] = length (rows campus_after)
   \<and> reachable 1 campus_after
   \<and> (\<exists>u2 d2 a. verify renamed_profile (campus_after\<lparr>rows := [bob, alice_renamed]\<rparr>)
                   = (Inr (Some u2), d2)
          \<and> id_col u2 = id_col alice_renamed
          \<and> rows d2 = [bob, alice_renamed] \<and> next_id d2 = next_id campus_after
          \<and> oid renamed_profile = Some a \<and> sent campus_after d2 = [SelectByOid a]
          \<and> filter (\<lambda>r. azure_oid r = a) [bob, alice_renamed] = [u2])"
proof -
  have h1: "injective_oid campus_db"
    by (simp add: injective_oid_def campus_db_def alice_def bob_def)
  have h2: "verify renamed_profile campus_db = (Inr (Some alice_renamed), campus_after)"
    by (simp add: verify_def Let_def truthy_def extract_email_def extract_name_def js_or_def
        json_email_of_def first_email_of_def resolve_def query_def raises_def log_query_def
        after_lookup_def touch_row_def renamed_profile_def campus_db_def campus_after_def
        alice_def bob_def alice_renamed_def)
  have h3: "set [bob, alice_renamed] = set (rows campus_after)"
    by (auto simp: campus_after_def)
  have h4: "length [bob, alice_renamed] = length (rows campus_after)"
    by (simp add: campus_after_def)
  have h5: "reachable 1 campus_after"
    by (simp add: reachable_def campus_after_def)
  from verify_idempotent [OF h1 h2 h3 h4 h5] h1 h2 h3 h4 h5 show ?thesis by blast
qed

text \<open>
  C3. Every sequential execution of \<open>resolve\<close> keeps the external subject ids of the table
  pairwise distinct, whatever the store does: the ids of the rows that were there stay as
  they were, in place, and a row is added only for an id that no row had.
\<close>

theorem resolve_preserves_injective:
  assumes "injective_oid d" and "resolve a e n d = (res, d')"
  shows "injective_oid d'
       \<and> (map azure_oid (rows d') = map azure_oid (rows d)
          \<or> a \<notin> set (map azure_oid (rows d)) \<and> map azure_oid (rows d') = map azure_oid (rows d) @ [a])"
  using assms(2)
proof (cases rule: resolve_cases)
  case inserted
  then have "a \<notin> set (map azure_oid (rows d))"
    by (simp add: filter_oid_empty del: set_map)
  with inserted assms(1) show ?thesis by (simp add: injective_oid_def)
qed (use assms(1) in \<open>simp_all add: injective_oid_def\<close>)

theorem resolve_preserves_injective_witness:
  "injective_oid empty_db
   \<and> resolve ''oid-alice'' ''alice@princeton.edu'' ''Alice'' empty_db = (Inr (Some alice), alice_db)
   \<and> injective_oid alice_db
   \<and> ''oid-alice'' \<notin> set (map azure_oid (rows empty_db))
   \<and> map azure_oid (rows alice_db) = map azure_oid (rows empty_db) @ [''oid-alice'']"
proof -
  have h1: "injective_oid empty_db"
    by (simp add: injective_oid_def empty_db_def)
  have h2: "resolve ''oid-alice'' ''alice@princeton.edu'' ''Alice'' empty_db = (Inr (Some alice), alice_db)"
    by (simp add: resolve_def query_def raises_def log_query_def after_lookup_def first_row_def
        new_row_def Let_def empty_db_def alice_def alice_db_def)
  have h3: "map azure_oid (rows alice_db) \<noteq> map azure_oid (rows empty_db)"
    by (simp add: alice_db_def empty_db_def)
  from resolve_preserves_injective [OF h1 h2] h1 h2 h3 show ?thesis by blast
qed

text \<open>
  C5. When the lookup finds a row for the external subject id whose name or email differs
  from the identity's, \<open>resolve\<close> (on a table whose \<open>id\<close> is a key, with the store
  answering) sets the row's name and email to the identity's and its \<open>updated_at\<close> to the
  current time, keeps its \<open>id\<close> and \<open>azure_oid\<close>, changes no other row, and returns the
  updated row.
\<close>

theorem resolve_updates_changed:
  assumes "key_id d" and "reachable 2 d"
    and "first_row (filter (\<lambda>r. azure_oid r = a) (rows d)) = Some u"
    and "name u \<noteq> n \<or> email u \<noteq> e"
  shows "\<exists>u' d'. resolve a e n d = (Inr (Some u'), d')
           \<and> u' = u\<lparr>email := e, name := n, updated_at := clock d\<rparr>
           \<and> id_col u' = id_col u \<and> azure_oid u' = azure_oid u \<and> azure_oid u = a
           \<and> rows d' = map (\<lambda>r. if r = u then u' else r) (rows d)"
proof -
  let ?t = "touch_row n e (id_col u) (clock d)"
  have nr: "\<not> raises d" "\<not> raises (log_query (SelectByOid a) d)"
    using assms(2) reachable_2 by blast+
  from assms(3) have mem: "u \<in> set (rows d)" and oid: "azure_oid u = a"
    using first_row_filter_mem [of "\<lambda>r. azure_oid r = a" "rows d" u] by simp_all
  from assms(1) have dist: "distinct (map id_col (rows d))" by (simp add: key_id_def)
  have only: "filter (\<lambda>r. id_col r = id_col u) (rows d) = [u]"
    using filter_key [OF dist mem] .
  have same: "map ?t (rows d) = map (\<lambda>r. if r = u then ?t u else r) (rows d)"
  proof (rule map_cong [OF refl])
    fix r assume "r \<in> set (rows d)"
    then have "id_col r = id_col u \<longleftrightarrow> r = u"
      using dist mem by (metis distinct_map inj_on_eq_iff)
    then show "?t r = (if r = u then ?t u else r)" by (simp add: touch_row_def)
  qed
  have "resolve a e n d = (Inr (Some (?t u)),
          (log_query (UpdateUser n e (id_col u)) (log_query (SelectByOid a) d))\<lparr>rows := map ?t (rows d)\<rparr>)"
    using nr assms(3,4)
    by (simp add: resolve_def query_def after_lookup_def Let_def filter_touch_id only first_row_def)
  moreover have "?t u = u\<lparr>email := e, name := n, updated_at := clock d\<rparr>"
    by (simp add: touch_row_def)
  ultimately show ?thesis using same oid by simp
qed

theorem resolve_updates_changed_witness:
  "key_id alice_db \<and> reachable 2 alice_db
   \<and> first_row (filter (\<lambda>r. azure_oid r = ''oid-alice'') (rows alice_db)) = Some alice
   \<and> name alice \<noteq> ''Alice B''
   \<and> (\<exists>u' d'. resolve ''oid-alice'' ''alice@princeton.edu'' ''Alice B'' alice_db = (Inr (Some u'), d')
          \<and> u' = alice\<lparr>email := ''alice@princeton.edu'', name := ''Alice B'', updated_at := clock alice_db\<rparr>
          \<and> id_col u' = id_col alice \<and> azure_oid u' = azure_oid alice
          \<and> azure_oid alice = ''oid-alice''
          \<and> rows d' = map (\<lambda>r. if r = alice then u' else r) (rows alice_db))"
proof -
  have h1: "key_id alice_db"
    by (simp add: key_id_def alice_db_def alice_def)
  have h2: "reachable 2 alice_db"
    by (simp add: reachable_def alice_db_def)
  have h3: "first_row (filter (\<lambda>r. azure_oid r = ''oid-alice'') (rows alice_db)) = Some alice"
    by (simp add: first_row_def alice_db_def alice_def)
  have h4: "name alice \<noteq> ''Alice B''"
    by (simp add: alice_def)
  from h4 have h5: "name alice \<noteq> ''Alice B'' \<or> email alice \<noteq> ''alice@princeton.edu''" by simp
  from resolve_updates_changed [OF h1 h2 h3 h5] h1 h2 h3 h4 show ?thesis by blast
qed

text \<open>
  C8. When a query of an authentication attempt raises because the store cannot be reached,
  the callback ends in \<^verbatim>\<open>done(err, null)\<close> with that error and no user; the query that
  raised is the last statement the attempt sends, no statement is sent twice (nothing is
  retried), and the table is as it was.
\<close>

theorem verify_unreachable_surfaced:
  assumes "verify p d = (res, d')" and "k < length (sent d d')"
    and "k < length (faults d)" and "faults d ! k"
  shows "res = Inl (DirectoryError Unreachable) \<and> Suc k = length (sent d d')
       \<and> distinct (sent d d') \<and> rows d' = rows d \<and> next_id d' = next_id d"
proof (cases "truthy (oid p) \<and> truthy (extract_email p)")
  case False
  then have "d' = d" using assms(1) verify_rejected [of p d] by auto
  with assms(2) show ?thesis by (simp add: sent_def)
next
  case True
  then obtain a e n where "verify p d = resolve a e n d"
    using verify_accepted [of p] by blast
  with assms(1) have "resolve a e n d = (res, d')" by simp
  then show ?thesis
  proof (cases rule: resolve_cases)
    case lookup_raises
    with assms(2) show ?thesis by (simp add: sent_def)
  next
    case insert_raises
    then have s: "sent d d' = [SelectByOid a, InsertUser a e n]" by (simp add: sent_def)
    with assms(2) have "k = 0 \<or> k = Suc 0" by (simp add: less_two_cases)
    moreover have "k \<noteq> 0" using fault_not_first [OF insert_raises(1) assms(3,4)] .
    ultimately show ?thesis using s insert_raises by simp
  next
    case inserted
    then have s: "sent d d' = [SelectByOid a, InsertUser a e n]" by (simp add: sent_def)
    with assms(2) have "k = 0 \<or> k = Suc 0" by (simp add: less_two_cases)
    moreover have "k \<noteq> 0" using fault_not_first [OF inserted(1) assms(3,4)] .
    moreover have "k \<noteq> Suc 0" using fault_not_second [OF inserted(3) assms(3,4)] .
    ultimately show ?thesis by simp
  next
    case (update_raises u)
    then have s: "sent d d' = [SelectByOid a, UpdateUser n e (id_col u)]" by (simp add: sent_def)
    with assms(2) have "k = 0 \<or> k = Suc 0" by (simp add: less_two_cases)
    moreover have "k \<noteq> 0" using fault_not_first [OF update_raises(1) assms(3,4)] .
    ultimately show ?thesis using s update_raises by simp
  next
    case (updated u)
    then have s: "sent d d' = [SelectByOid a, UpdateUser n e (id_col u)]" by (simp add: sent_def)
    with assms(2) have "k = 0 \<or> k = Suc 0" by (simp add: less_two_cases)
    moreover have "k \<noteq> 0" using fault_not_first [OF updated(1) assms(3,4)] .
    moreover have "k \<noteq> Suc 0" using fault_not_second [OF updated(4) assms(3,4)] .
    ultimately show ?thesis by simp
  next
    case (unchanged u)
    then have s: "sent d d' = [SelectByOid a]" by (simp add: sent_def)
    with assms(2) have "k = 0" by simp
    moreover have "k \<noteq> 0" using fault_not_first [OF unchanged(1) assms(3,4)] .
    ultimately show ?thesis by simp
  qed
qed

theorem verify_unreachable_surfaced_witness:
  "1 < length (sent outage_db (snd (verify alice_profile outage_db)))
   \<and> 1 < length (faults outage_db) \<and> faults outage_db ! 1
   \<and> fst (verify alice_profile outage_db) = Inl (DirectoryError Unreachable)
   \<and> Suc 1 = length (sent outage_db (snd (verify alice_profile outage_db)))
   \<and> distinct (sent outage_db (snd (verify alice_profile outage_db)))
   \<and> rows (snd (verify alice_profile outage_db)) = rows outage_db
   \<and> next_id (snd (verify alice_profile outage_db)) = next_id outage_db"
proof -
  have v: "verify alice_profile outage_db =
      (Inl (DirectoryError Unreachable),
       outage_db\<lparr>faults := [],
                 issued := [SelectByOid ''oid-alice'',
                            InsertUser ''oid-alice'' ''alice@princeton.edu'' ''Alice'']\<rparr>)"
    by (simp add: verify_def Let_def truthy_def extract_email_def extract_name_def js_or_def
        json_email_of_def first_email_of_def resolve_def query_def raises_def log_query_def
        after_lookup_def first_row_def alice_profile_def outage_db_def)
  have h1: "verify alice_profile outage_db
      = (fst (verify alice_profile outage_db), snd (verify alice_profile outage_db))"
    by simp
  have h2: "1 < length (sent outage_db (snd (verify alice_profile outage_db)))"
    by (simp add: v sent_def) (simp add: outage_db_def)
  have h3: "1 < length (faults outage_db)" and h4: "faults outage_db ! 1"
    by (simp_all add: outage_db_def)
  from verify_unreachable_surfaced [OF h1 h2 h3 h4] h2 h3 h4 show ?thesis by simp
qed

text \<open>
  C9. For a profile the guard accepts (a truthy \<open>oid\<close>, and some email candidate present),
  the attempt does not fail for a missing identifier, and it returns a user whenever the
  store answers. The user it returns is a row of the table whose email is the first present
  value among \<^verbatim>\<open>profile.upn\<close>, the \<^verbatim>\<open>email\<close> of \<^verbatim>\<open>profile._json\<close> and the
  \<^verbatim>\<open>value\<close> of the first entry of \<^verbatim>\<open>profile.emails\<close>, in this order, and whose name
  is the display name when that is present and \<^verbatim>\<open>'UniEats User'\<close> when it is not. Present
  means truthy: a string that is not empty. The candidates are read from the fields of the
  profile, not through the accessors of the callback.
\<close>

theorem verify_records_first_present:
  assumes "truthy (oid p)"
    and "truthy (first_present
           [upn p,
            case json p of None \<Rightarrow> None | Some j \<Rightarrow> json_email j,
            case emails p of None \<Rightarrow> None | Some [] \<Rightarrow> None | Some (e # _) \<Rightarrow> entry_value e])"
  shows "fst (verify p d) \<noteq> Inl MissingIdentifier
       \<and> (reachable 2 d \<longrightarrow> (\<exists>u d'. verify p d = (Inr (Some u), d')))
       \<and> (\<forall>u d'. verify p d = (Inr (Some u), d') \<longrightarrow>
            u \<in> set (rows d')
          \<and> Some (email u) = first_present
               [upn p,
                case json p of None \<Rightarrow> None | Some j \<Rightarrow> json_email j,
                case emails p of None \<Rightarrow> None | Some [] \<Rightarrow> None | Some (e # _) \<Rightarrow> entry_value e]
          \<and> Some (name u) = first_present [displayName p, Some ''UniEats User'']
          \<and> (\<not> truthy (displayName p) \<longrightarrow> name u = ''UniEats User''))"
proof -
  have c: "(case json p of None \<Rightarrow> None | Some j \<Rightarrow> json_email j) = json_email_of p"
    "(case emails p of None \<Rightarrow> None | Some [] \<Rightarrow> None | Some (e # _) \<Rightarrow> entry_value e) = first_email_of p"
    by (simp_all add: json_email_of_def first_email_of_def)
  from assms(2) have em: "truthy (extract_email p)"
    unfolding c by (simp add: extract_email_first_present(1))
  with assms(1) obtain a e n where a: "oid p = Some a" and e: "extract_email p = Some e"
    and n: "extract_name p = Some n" and v: "\<And>d. verify p d = resolve a e n d"
    using verify_accepted [of p] by blast
  have e': "first_present [upn p, json_email_of p, first_email_of p] = Some e"
    using extract_email_first_present(2) [OF em] e by simp
  have n': "first_present [displayName p, Some ''UniEats User''] = Some n"
    using extract_name_first_present [of p] n by simp
  have "fst (verify p d) \<noteq> Inl MissingIdentifier"
  proof -
    obtain res d' where r: "resolve a e n d = (res, d')" by (cases "resolve a e n d")
    then have "res \<noteq> Inl MissingIdentifier" by (cases rule: resolve_cases) simp_all
    with r show ?thesis by (simp add: v)
  qed
  moreover have "reachable 2 d \<longrightarrow> (\<exists>u d'. verify p d = (Inr (Some u), d'))"
    using resolve_returns [of d a e n] by (simp add: v)
  moreover have "\<forall>u d'. verify p d = (Inr (Some u), d') \<longrightarrow>
            u \<in> set (rows d')
          \<and> Some (email u) = first_present [upn p, json_email_of p, first_email_of p]
          \<and> Some (name u) = first_present [displayName p, Some ''UniEats User'']
          \<and> (\<not> truthy (displayName p) \<longrightarrow> name u = ''UniEats User'')"
  proof (intro allI impI)
    fix u d' assume "verify p d = (Inr (Some u), d')"
    then have "u \<in> set (rows d') \<and> email u = e \<and> name u = n"
      using resolve_returned [of a e n d u d'] by (simp add: v)
    moreover have "\<not> truthy (displayName p) \<longrightarrow> n = ''UniEats User''"
      using n by (auto simp: extract_name_def js_or_def)
    ultimately show "u \<in> set (rows d')
          \<and> Some (email u) = first_present [upn p, json_email_of p, first_email_of p]
          \<and> Some (name u) = first_present [displayName p, Some ''UniEats User'']
          \<and> (\<not> truthy (displayName p) \<longrightarrow> name u = ''UniEats User'')"
      using e' n' by simp
  qed
  ultimately show ?thesis unfolding c by blast
qed

theorem verify_records_first_present_witness:
  "truthy (oid list_profile) \<and> upn list_profile = Some [] \<and> json list_profile = Some \<lparr>json_email = None\<rparr>
   \<and> displayName list_profile = Some []
   \<and> reachable 2 empty_db
   \<and> (\<exists>u d'. verify list_profile empty_db = (Inr (Some u), d') \<and> u \<in> set (rows d')
          \<and> email u = ''list@princeton.edu'' \<and> name u = ''UniEats User'')
   \<and> truthy (oid guest_profile) \<and> upn guest_profile = None
   \<and> (\<exists>u d'. verify guest_profile empty_db = (Inr (Some u), d') \<and> u \<in> set (rows d')
          \<and> email u = ''guest@princeton.edu'' \<and> name u = ''UniEats User'')"
proof -
  have l1: "truthy (oid list_profile)"
    by (simp add: truthy_def list_profile_def)
  have lp: "first_present
       [upn list_profile,
        case json list_profile of None \<Rightarrow> None | Some j \<Rightarrow> json_email j,
        case emails list_profile of None \<Rightarrow> None | Some [] \<Rightarrow> None | Some (e # _) \<Rightarrow> entry_value e]
      = Some ''list@princeton.edu''"
    by (simp add: truthy_def list_profile_def)
  have l2: "truthy (first_present
       [upn list_profile,
        case json list_profile of None \<Rightarrow> None | Some j \<Rightarrow> json_email j,
        case emails list_profile of None \<Rightarrow> None | Some [] \<Rightarrow> None | Some (e # _) \<Rightarrow> entry_value e])"
    unfolding lp by (simp add: truthy_def)
  have l3: "upn list_profile = Some []" "json list_profile = Some \<lparr>json_email = None\<rparr>"
    "displayName list_profile = Some []" "\<not> truthy (displayName list_profile)"
    by (simp_all add: list_profile_def truthy_def)
  have g1: "truthy (oid guest_profile)"
    by (simp add: truthy_def guest_profile_def)
  have gp: "first_present
       [upn guest_profile,
        case json guest_profile of None \<Rightarrow> None | Some j \<Rightarrow> json_email j,
        case emails guest_profile of None \<Rightarrow> None | Some [] \<Rightarrow> None | Some (e # _) \<Rightarrow> entry_value e]
      = Some ''guest@princeton.edu''"
    by (simp add: truthy_def guest_profile_def)
  have g2: "truthy (first_present
       [upn guest_profile,
        case json guest_profile of None \<Rightarrow> None | Some j \<Rightarrow> json_email j,
        case emails guest_profile of None \<Rightarrow> None | Some [] \<Rightarrow> None | Some (e # _) \<Rightarrow> entry_value e])"
    unfolding gp by (simp add: truthy_def)
  have g3: "upn guest_profile = None" "\<not> truthy (displayName guest_profile)"
    by (simp_all add: guest_profile_def)
  have h3: "reachable 2 empty_db"
    by (simp add: reachable_def empty_db_def)
  from verify_records_first_present [OF l1 l2, of empty_db] h3
  obtain u d' where "verify list_profile empty_db = (Inr (Some u), d')" by blast
  with verify_records_first_present [OF l1 l2, of empty_db] l3(4) lp
  have l: "verify list_profile empty_db = (Inr (Some u), d') \<and> u \<in> set (rows d')
      \<and> email u = ''list@princeton.edu'' \<and> name u = ''UniEats User''"
    by simp
  from verify_records_first_present [OF g1 g2, of empty_db] h3
  obtain w dw where "verify guest_profile empty_db = (Inr (Some w), dw)" by blast
  with verify_records_first_present [OF g1 g2, of empty_db] g3(2) gp
  have g: "verify guest_profile empty_db = (Inr (Some w), dw) \<and> w \<in> set (rows dw)
      \<and> email w = ''guest@princeton.edu'' \<and> name w = ''UniEats User''"
    by simp
  from l g l1 l3 g1 g3 h3 show ?thesis by blast
qed

text \<open>
  C2, as the code has it. The callback has no retry. When the create step fails because a
  row with the external subject id is already there (the uniqueness constraint is
  violated), the call ends at once in \<^verbatim>\<open>done(err, null)\<close> with that failure: the
  \<^verbatim>\<open>INSERT\<close> is the last statement it sends, and the rows are as they were (only the
  sequence behind \<open>id\<close> has moved on). On a table
  that carries the constraint, with the store answering, first-time calls for the same new
  external subject id, interleaved in any order, leave exactly one row with that id as
  soon as one of them has finished.
\<close>

theorem create_failure_surfaced_one_record:
  assumes "unique_oid d" and "faults d = []"
  shows "(a \<in> set (map azure_oid (rows d)) \<longrightarrow>
            step (Decide a e n None) d
              = (Finished (Inl (DirectoryError UniqueViolation)),
                 (log_query (InsertUser a e n) d)\<lparr>next_id := Suc (next_id d)\<rparr>))
       \<and> (a \<notin> set (map azure_oid (rows d)) \<and> (\<forall>c\<in>set cs. \<exists>e n. c = Lookup a e n)
            \<and> (\<exists>c\<in>set (fst (run sched cs d)). is_finished c) \<longrightarrow>
            length (filter (\<lambda>r. azure_oid r = a) (rows (snd (run sched cs d)))) = 1)"
proof (intro conjI impI)
  assume "a \<in> set (map azure_oid (rows d))"
  with assms show "step (Decide a e n None) d
      = (Finished (Inl (DirectoryError UniqueViolation)),
         (log_query (InsertUser a e n) d)\<lparr>next_id := Suc (next_id d)\<rparr>)"
    by (intro step_violation) (simp_all add: raises_def)
next
  assume h: "a \<notin> set (map azure_oid (rows d)) \<and> (\<forall>c\<in>set cs. \<exists>e n. c = Lookup a e n)
            \<and> (\<exists>c\<in>set (fst (run sched cs d)). is_finished c)"
  then have "filter (\<lambda>r. azure_oid r = a) (rows d) = []"
    by (simp add: filter_oid_empty del: set_map)
  with assms have q: "quiet a d" by (simp add: quiet_def)
  from h have s: "\<forall>c\<in>set cs. seen a d c" by auto
  obtain cs' d' where r: "run sched cs d = (cs', d')" by (cases "run sched cs d")
  from run_quiet [OF q s r] have q': "quiet a d'" and s': "\<forall>c\<in>set cs'. seen a d' c" by blast+
  from h r obtain c where "c \<in> set cs'" "is_finished c" by auto
  with s' have "a \<in> set (map azure_oid (rows d'))" using seen_finished by blast
  then have "filter (\<lambda>r. azure_oid r = a) (rows d') \<noteq> []"
    by (simp add: filter_oid_empty del: set_map)
  then have "length (filter (\<lambda>r. azure_oid r = a) (rows d')) \<noteq> 0" by simp
  moreover from q' have "length (filter (\<lambda>r. azure_oid r = a) (rows d')) \<le> 1"
    by (simp add: quiet_def)
  ultimately have "length (filter (\<lambda>r. azure_oid r = a) (rows d')) = 1" by arith
  with r show "length (filter (\<lambda>r. azure_oid r = a) (rows (snd (run sched cs d)))) = 1" by simp
qed

theorem create_failure_surfaced_one_record_witness:
  "unique_oid alice_db \<and> faults alice_db = [] \<and> unique_oid empty_db \<and> faults empty_db = []
   \<and> ''oid-alice'' \<in> set (map azure_oid (rows alice_db))
   \<and> step (Decide ''oid-alice'' ''alice@princeton.edu'' ''Alice'' None) alice_db
       = (Finished (Inl (DirectoryError UniqueViolation)),
          (log_query (InsertUser ''oid-alice'' ''alice@princeton.edu'' ''Alice'') alice_db)
            \<lparr>next_id := Suc (next_id alice_db)\<rparr>)
   \<and> ''oid-alice'' \<notin> set (map azure_oid (rows empty_db))
   \<and> list_all is_finished (fst (run [0, 1, 0, 1] race_calls empty_db))
   \<and> length (filter (\<lambda>r. azure_oid r = ''oid-alice'')
               (rows (snd (run [0, 1, 0, 1] race_calls empty_db)))) = 1"
proof -
  have a1: "unique_oid alice_db" "faults alice_db = []"
    and a2: "''oid-alice'' \<in> set (map azure_oid (rows alice_db))"
    by (simp_all add: alice_db_def alice_def)
  have e1: "unique_oid empty_db" "faults empty_db = []"
    and e2: "''oid-alice'' \<notin> set (map azure_oid (rows empty_db))"
    by (simp_all add: empty_db_def)
  have e3: "\<forall>c\<in>set race_calls. \<exists>e n. c = Lookup ''oid-alice'' e n"
    by (simp add: race_calls_def)
  have r: "fst (run [0, 1, 0, 1] race_calls empty_db)
      = [Finished (Inr (Some alice)), Finished (Inl (DirectoryError UniqueViolation))]"
    by (simp add: race_calls_def empty_db_def alice_def query_def raises_def log_query_def
        after_lookup_def new_row_def Let_def)
  then have e4: "\<exists>c\<in>set (fst (run [0, 1, 0, 1] race_calls empty_db)). is_finished c"
    and e5: "list_all is_finished (fst (run [0, 1, 0, 1] race_calls empty_db))"
    by simp_all
  from create_failure_surfaced_one_record [OF a1, of "''oid-alice''" "''alice@princeton.edu''" "''Alice''"]
    create_failure_surfaced_one_record [OF e1, of "''oid-alice''" _ _ race_calls "[0, 1, 0, 1]"]
    a1 a2 e1 e2 e3 e4 e5
  show ?thesis by blast
qed

text \<open>The claim as stated fails: of two interleaved first logins on the empty table, the
  second ends with the uniqueness violation, not with the row the first one created, and
  no lookup follows its \<^verbatim>\<open>INSERT\<close>.\<close>

theorem race_loser_gets_violation:
  "run [0, 1, 0, 1] race_calls empty_db
     = ([Finished (Inr (Some alice)), Finished (Inl (DirectoryError UniqueViolation))],
        alice_db\<lparr>next_id := 3,
                 issued := [SelectByOid ''oid-alice'', SelectByOid ''oid-alice'',
                            InsertUser ''oid-alice'' ''alice@princeton.edu'' ''Alice'',
                            InsertUser ''oid-alice'' ''alice@princeton.edu'' ''Alice'']\<rparr>)"
  by (simp add: race_calls_def empty_db_def alice_db_def alice_def query_def raises_def
      log_query_def after_lookup_def new_row_def Let_def)

text \<open>
  C4, as the code has it. For a profile that lacks a usable (truthy) \<open>oid\<close>, or in which
  none of \<^verbatim>\<open>upn\<close>, the embedded email claim and the first entry of the emails list is
  present, the callback ends in \<^verbatim>\<open>done(err, null)\<close> with the missing-identifier error
  before any query: nothing is sent to the store, no row is created or updated, and no
  session is established. The callback route hands that error to the error handler
  (\<^verbatim>\<open>next(err)\<close>); it does not redirect to \<^verbatim>\<open>/login-failed\<close>.
\<close>

theorem auth_return_missing_identifier:
  assumes "\<not> truthy (oid p)
         \<or> (\<not> truthy (upn p) \<and> \<not> truthy (json_email_of p) \<and> \<not> truthy (first_email_of p))"
  shows "verify p (directory s) = (Inl MissingIdentifier, directory s)
       \<and> auth_return (Accepted p) req s = (ServerError MissingIdentifier, s)"
proof -
  from assms have "\<not> truthy (oid p) \<or> \<not> truthy (extract_email p)"
    by (simp add: extract_email_absent)
  then have "verify p (directory s) = (Inl MissingIdentifier, directory s)"
    by (rule verify_rejected)
  then show ?thesis by (simp add: auth_return_def)
qed

theorem auth_return_missing_identifier_witness:
  "\<not> truthy (upn anonymous_profile) \<and> \<not> truthy (json_email_of anonymous_profile)
   \<and> \<not> truthy (first_email_of anonymous_profile)
   \<and> verify anonymous_profile (directory example_server)
       = (Inl MissingIdentifier, directory example_server)
   \<and> auth_return (Accepted anonymous_profile) example_request example_server
       = (ServerError MissingIdentifier, example_server)"
proof -
  have h: "\<not> truthy (upn anonymous_profile) \<and> \<not> truthy (json_email_of anonymous_profile)
      \<and> \<not> truthy (first_email_of anonymous_profile)"
    by (simp add: truthy_def json_email_of_def first_email_of_def anonymous_profile_def)
  then have "\<not> truthy (oid anonymous_profile)
      \<or> (\<not> truthy (upn anonymous_profile) \<and> \<not> truthy (json_email_of anonymous_profile)
         \<and> \<not> truthy (first_email_of anonymous_profile))"
    by simp
  from auth_return_missing_identifier [OF this, of example_server example_request] h
  show ?thesis by simp
qed

text \<open>The claim as stated fails: a callback whose profile has no email is not answered
  with the redirect to \<^verbatim>\<open>/login-failed\<close>.\<close>

theorem missing_identifier_not_redirected:
  "\<not> truthy (extract_email anonymous_profile)
   \<and> fst (auth_return (Accepted anonymous_profile) example_request example_server)
       = ServerError MissingIdentifier
   \<and> fst (auth_return (Accepted anonymous_profile) example_request example_server)
       \<noteq> Redirect ''/login-failed''"
  by (simp add: auth_return_def verify_def Let_def truthy_def extract_email_def js_or_def
      json_email_of_def first_email_of_def anonymous_profile_def)

text \<open>
  C6, as the code has it. A request to \<^verbatim>\<open>GET /api/user\<close> is answered in one of three
  ways. Without a live session that holds a user (no cookie, an unknown or expired
  session, a session without a user), and with one whose user id matches no row, the
  response is 401 with \<^verbatim>\<open>{success: false, message: "Not authenticated"}\<close>. With a live
  session whose user id matches a row, the response is
  \<^verbatim>\<open>{success: true, user: {id, name, email, role}}\<close> built from that row. When the lookup
  of the session's user raises, the error goes to the error handler and the handler of the
  route does not run.
\<close>

theorem api_user_response:
  "fst (api_user req s) =
     (case session_user req s of
        None \<Rightarrow>
          Json 401 (JObj [(''success'', JBool False), (''message'', JStr ''Not authenticated'')])
      | Some i \<Rightarrow>
          if raises (directory s) then ServerError (DirectoryError Unreachable)
          else
            (case first_row (filter (\<lambda>r. id_col r = i) (rows (directory s))) of
               None \<Rightarrow>
                 Json 401 (JObj [(''success'', JBool False),
                                 (''message'', JStr ''Not authenticated'')])
             | Some u \<Rightarrow>
                 Json 200 (JObj [(''success'', JBool True),
                                 (''user'', JObj [(''id'', JNum (id_col u)),
                                                  (''name'', JStr (name u)),
                                                  (''email'', JStr (email u)),
                                                  (''role'', JStr (role u))])])))"
  by (simp add: api_user_fst validate_ways api_user_handler_def split: option.splits)

theorem api_user_response_witness:
  "fst (api_user cookie_request session_server)
     = Json 200 (JObj [(''success'', JBool True),
                       (''user'', JObj [(''id'', JNum 1),
                                        (''name'', JStr ''Alice''),
                                        (''email'', JStr ''alice@princeton.edu''),
                                        (''role'', JStr ''customer'')])])"
proof -
  have h1: "session_user cookie_request session_server = Some 1"
    by (simp add: session_user_def find_session_def cookie_request_def session_server_def)
  have h2: "\<not> raises (directory session_server)"
    by (simp add: raises_def session_server_def alice_db_def)
  have h3: "first_row (filter (\<lambda>r. id_col r = 1) (rows (directory session_server))) = Some alice"
    by (simp add: session_server_def alice_db_def alice_def)
  from api_user_response [of cookie_request session_server] h1 h2 h3
  show ?thesis by (simp add: alice_def)
qed

text \<open>The claim as stated fails: a request that presents a live session of a user of the
  table, while the store cannot be reached, gets neither of the two responses.\<close>

theorem api_user_outage:
  "session_user cookie_request outage_server = Some 1
   \<and> first_row (filter (\<lambda>r. id_col r = 1) (rows (directory outage_server))) = Some alice
   \<and> fst (api_user cookie_request outage_server) = ServerError (DirectoryError Unreachable)"
  by (simp add: api_user_def validate_def find_session_def deserializeUser_def query_def
      raises_def log_query_def session_user_def first_row_def outage_server_def
      cookie_request_def alice_db_def alice_def)

text \<open>
  C7. A session established for a user of the table validates, until it expires and while
  the store answers, to a row of the table with the same id: \<^verbatim>\<open>serializeUser\<close> stores
  the id and \<^verbatim>\<open>deserializeUser\<close> finds the row by it. After \<open>destroy\<close>, and so after a
  logout that reached its redirect, the session id validates to no user.
\<close>

theorem establish_validate_destroy:
  "(u \<in> set (rows (directory s)) \<and> \<not> raises (directory s) \<and> t < now s + maxAge \<longrightarrow>
      (\<exists>u' s'. validate (Some k) ((establish u k s)\<lparr>now := t\<rparr>) = (Inr (Some u'), s')
         \<and> id_col u' = id_col u \<and> u' \<in> set (rows (directory s))))
   \<and> validate (Some k) (destroy k s) = (Inr None, destroy k s)
   \<and> (cookie_sid req = Some k \<and> fst (logout req s) = Redirect (frontend_url s) \<longrightarrow>
        fst (validate (Some k) (snd (logout req s))) = Inr None)"
proof (intro conjI impI)
  assume a: "u \<in> set (rows (directory s)) \<and> \<not> raises (directory s) \<and> t < now s + maxAge"
  then have "filter (\<lambda>r. id_col r = id_col u) (rows (directory s)) \<noteq> []"
    by (auto simp: filter_empty_conv)
  then obtain u' where u': "first_row (filter (\<lambda>r. id_col r = id_col u) (rows (directory s))) = Some u'"
    by (cases "filter (\<lambda>r. id_col r = id_col u) (rows (directory s))") (simp_all add: first_row_def)
  have d: "directory ((establish u k s)\<lparr>now := t\<rparr>) = directory s"
    by (simp add: establish_def put_session_def)
  from a u' have "validate (Some k) ((establish u k s)\<lparr>now := t\<rparr>)
      = (Inr (Some u'), (establish u k s)\<lparr>now := t, directory := log_query (SelectById (id_col u)) (directory s)\<rparr>)"
    by (simp add: validate_def find_session_establish d deserializeUser_ways)
  moreover from first_row_filter_mem [OF u'] have "id_col u' = id_col u" "u' \<in> set (rows (directory s))"
    by simp_all
  ultimately show "\<exists>u' s'. validate (Some k) ((establish u k s)\<lparr>now := t\<rparr>) = (Inr (Some u'), s')
         \<and> id_col u' = id_col u \<and> u' \<in> set (rows (directory s))" by blast
next
  show "validate (Some k) (destroy k s) = (Inr None, destroy k s)" by (rule validate_destroy)
next
  assume a: "cookie_sid req = Some k \<and> fst (logout req s) = Redirect (frontend_url s)"
  obtain r s1 where v: "validate (cookie_sid req) s = (r, s1)" by (cases "validate (cookie_sid req) s")
  with a obtain x where "r = Inr x" by (cases r) (auto simp: logout_def)
  with a v have "snd (logout req s) = destroy k s1" by (simp add: logout_def)
  then show "fst (validate (Some k) (snd (logout req s))) = Inr None"
    by (simp add: validate_destroy)
qed

theorem establish_validate_destroy_witness:
  "alice \<in> set (rows (directory session_server)) \<and> \<not> raises (directory session_server)
   \<and> 2000 < now session_server + maxAge
   \<and> (\<exists>u' s'. validate (Some ''sid-2'') ((establish alice ''sid-2'' session_server)\<lparr>now := 2000\<rparr>)
                   = (Inr (Some u'), s')
          \<and> id_col u' = id_col alice \<and> u' \<in> set (rows (directory session_server)))
   \<and> cookie_sid cookie_request = Some ''sid-1''
   \<and> fst (logout cookie_request session_server) = Redirect (frontend_url session_server)
   \<and> fst (validate (Some ''sid-1'') (snd (logout cookie_request session_server))) = Inr None"
proof -
  have h1: "alice \<in> set (rows (directory session_server))"
    and h2: "\<not> raises (directory session_server)"
    and h3: "2000 < now session_server + maxAge"
    by (simp_all add: session_server_def alice_db_def raises_def maxAge_def)
  have h4: "cookie_sid cookie_request = Some ''sid-1''"
    by (simp add: cookie_request_def)
  have h5: "fst (logout cookie_request session_server) = Redirect (frontend_url session_server)"
    by (simp add: logout_def validate_def find_session_def deserializeUser_def query_def
        raises_def cookie_request_def session_server_def alice_db_def alice_def)
  from establish_validate_destroy [of alice session_server 2000 "''sid-2''" cookie_request]
    establish_validate_destroy [of alice session_server 2000 "''sid-1''" cookie_request]
    h1 h2 h3 h4 h5
  show ?thesis by blast
qed

text \<open>
  C10. When a live session holds a user id that matches no row of the table, and the
  lookup is answered, \<^verbatim>\<open>deserializeUser\<close> yields no user and no error, the request
  carries no user, and \<^verbatim>\<open>GET /api/user\<close> answers 401 with
  \<^verbatim>\<open>{success: false, message: "Not authenticated"}\<close>, not with a server error.
\<close>

theorem stale_session_unauthenticated:
  assumes "session_user req s = Some i" and "\<not> raises (directory s)"
    and "i \<notin> set (map id_col (rows (directory s)))"
  shows "fst (deserializeUser i (directory s)) = Inr None
       \<and> fst (validate (cookie_sid req) s) = Inr None
       \<and> fst (api_user req s)
           = Json 401 (JObj [(''success'', JBool False), (''message'', JStr ''Not authenticated'')])"
proof -
  from assms(3) have "filter (\<lambda>r. id_col r = i) (rows (directory s)) = []"
    by (auto simp: filter_empty_conv)
  with assms(1,2) show ?thesis
    by (simp add: deserializeUser_ways api_user_fst validate_ways api_user_handler_def)
qed

theorem stale_session_unauthenticated_witness:
  "session_user cookie_request stale_server = Some 7 \<and> \<not> raises (directory stale_server)
   \<and> 7 \<notin> set (map id_col (rows (directory stale_server)))
   \<and> fst (deserializeUser 7 (directory stale_server)) = Inr None
   \<and> fst (validate (cookie_sid cookie_request) stale_server) = Inr None
   \<and> fst (api_user cookie_request stale_server)
       = Json 401 (JObj [(''success'', JBool False), (''message'', JStr ''Not authenticated'')])"
proof -
  have h1: "session_user cookie_request stale_server = Some 7"
    by (simp add: session_user_def find_session_def cookie_request_def stale_server_def)
  have h2: "\<not> raises (directory stale_server)"
    by (simp add: raises_def stale_server_def alice_db_def)
  have h3: "7 \<notin> set (map id_col (rows (directory stale_server)))"
    by (simp add: stale_server_def alice_db_def alice_def)
  from stale_session_unauthenticated [OF h1 h2 h3] h1 h2 h3 show ?thesis by blast
qed

section \<open>Further properties\<close>

text \<open>
  On a table that carries the uniqueness constraint, calls interleaved in any order, for
  any identities and whatever the store does, keep the external subject ids pairwise
  distinct.
\<close>

theorem run_preserves_injective:
  assumes "unique_oid d" and "injective_oid d"
  shows "injective_oid (snd (run sched cs d))"
  using assms
proof (induction sched arbitrary: cs d)
  case Nil
  then show ?case by simp
next
  case (Cons i sched)
  show ?case
  proof (cases "i < length cs")
    case False
    with Cons show ?thesis by simp
  next
    case True
    obtain c d1 where st: "step (cs ! i) d = (c, d1)" by (cases "step (cs ! i) d")
    with step_preserves_injective [OF Cons.prems, of "cs ! i"]
    have "unique_oid d1" "injective_oid d1" by simp_all
    from Cons.IH [OF this] True st show ?thesis by simp
  qed
qed

theorem run_preserves_injective_witness:
  "unique_oid empty_db \<and> injective_oid empty_db
   \<and> injective_oid (snd (run [0, 1, 0, 1] race_calls empty_db))"
proof -
  have h1: "unique_oid empty_db" and h2: "injective_oid empty_db"
    by (simp_all add: empty_db_def injective_oid_def)
  from run_preserves_injective [OF h1 h2] h1 h2 show ?thesis by blast
qed

text \<open>
  Without the constraint the same two interleaved first logins leave two rows with the
  external subject id: nothing in the callback guards the lookup and the create.
\<close>

theorem race_without_constraint:
  "length (filter (\<lambda>r. azure_oid r = ''oid-alice'')
     (rows (snd (run [0, 1, 0, 1] race_calls (empty_db\<lparr>unique_oid := False\<rparr>))))) = 2"
  by (simp add: race_calls_def empty_db_def query_def raises_def
      log_query_def after_lookup_def new_row_def Let_def)

text \<open>
  A sequential \<open>resolve\<close> keeps \<open>id\<close> a key of the table, as long as the sequence
  behind it is ahead of the ids in use.
\<close>

theorem resolve_preserves_key:
  assumes "key_id d" and "fresh_ids d" and "resolve a e n d = (res, d')"
  shows "key_id d' \<and> fresh_ids d'"
  using assms(3)
proof (cases rule: resolve_cases)
  case inserted
  from assms(2) have "next_id d \<notin> set (map id_col (rows d))"
    by (auto simp: fresh_ids_def list_all_iff)
  moreover from assms(2) have "list_all (\<lambda>r. id_col r < Suc (next_id d)) (rows d)"
    by (auto simp: fresh_ids_def list_all_iff)
  ultimately show ?thesis using assms(1) inserted by (simp add: key_id_def fresh_ids_def)
next
  case (updated u)
  with assms(1,2) show ?thesis by (simp add: key_id_def fresh_ids_def list_all_iff)
qed (use assms(1,2) in \<open>simp_all add: key_id_def fresh_ids_def\<close>)

theorem resolve_preserves_key_witness:
  "key_id empty_db \<and> fresh_ids empty_db
   \<and> resolve ''oid-alice'' ''alice@princeton.edu'' ''Alice'' empty_db = (Inr (Some alice), alice_db)
   \<and> key_id alice_db \<and> fresh_ids alice_db"
proof -
  have h1: "key_id empty_db" and h2: "fresh_ids empty_db"
    by (simp_all add: key_id_def fresh_ids_def empty_db_def)
  have h3: "resolve ''oid-alice'' ''alice@princeton.edu'' ''Alice'' empty_db = (Inr (Some alice), alice_db)"
    by (simp add: resolve_def query_def raises_def log_query_def after_lookup_def first_row_def
        new_row_def Let_def empty_db_def alice_def alice_db_def)
  from resolve_preserves_key [OF h1 h2 h3] h1 h2 h3 show ?thesis by blast
qed

end
